theory Spec2Isabelle
  imports Main "HOL-Library.AList"
begin

section \<open>Data model\<close>

text \<open>
  The records follow \<^verbatim>\<open>models/player.py\<close>, \<^verbatim>\<open>models/guess.py\<close> and
  \<^verbatim>\<open>models/game.py\<close>. Python's \<^verbatim>\<open>Optional[T]\<close> is \<open>T option\<close>, its unbounded
  \<^verbatim>\<open>int\<close> is \<open>int\<close>, a \<^verbatim>\<open>datetime\<close> is an opaque clock reading. The field
  \<^verbatim>\<open>game_id\<close> of a guess is called \<open>guess_game_id\<close>, since \<open>game_id\<close> is the
  field of the game.
\<close>

datatype GameStatus = WAITING | IN_PROGRESS | COMPLETED

record Player =
  player_id :: string
  name :: string
  secret_number :: "string option"
  is_ready :: bool

record Guess =
  guess_id :: string
  guess_game_id :: string
  guesser_player_id :: string
  target_player_id :: string
  guessed_number :: string
  correct_digits :: int
  correct_positions :: int
  timestamp :: nat
  turn_number :: int

record Game =
  game_id :: string
  player_1 :: Player
  player_2 :: "Player option"
  current_turn :: "string option"
  status :: GameStatus
  winner_id :: "string option"
  guesses :: "Guess list"
  created_at :: nat
  turn_count :: int

text \<open>
  The exception classes of \<^verbatim>\<open>utils/exceptions.py\<close>, followed by the exceptions
  that the Python runtime and the pydantic constructors raise on the paths modelled here.
\<close>

datatype error =
    GameNotFoundError
  | PlayerNotFoundError
  | GameFullError
  | NotYourTurnError
  | GameNotStartedError
  | NumberAlreadyLockedError
  | InvalidNumberFormatError
  | GameAlreadyCompletedError
  | PlayerNotInGameError
  | IndexError
  | TypeError
  | AttributeError
  | ValidationError

section \<open>Scoring: \<^verbatim>\<open>calculate_match\<close>\<close>

text \<open>The dictionary returned by \<^verbatim>\<open>calculate_match\<close>.\<close>

record MatchResult =
  mr_correct_digits :: int
  mr_correct_positions :: int

text \<open>
  The loop \<^verbatim>\<open>for i in range(4): if secret[i] == guess[i]: correct_positions += 1\<close>.
  Reading a string past its end raises \<^verbatim>\<open>IndexError\<close>.
\<close>

fun position_loop :: "string \<Rightarrow> string \<Rightarrow> nat list \<Rightarrow> int \<Rightarrow> error + int" where
  "position_loop secret guess [] acc = Inr acc"
| "position_loop secret guess (i # rest) acc =
     (if i < length secret \<and> i < length guess
      then position_loop secret guess rest (if secret ! i = guess ! i then acc + 1 else acc)
      else Inl IndexError)"

text \<open>
  A Python \<^verbatim>\<open>dict\<close> keeps its keys in insertion order; it is an association list
  with distinct keys, written with \<open>AList.update\<close> (which keeps the place of a key that
  is already there and appends a new one). \<open>dict_get\<close> is \<^verbatim>\<open>d.get(k, default)\<close>.
\<close>

definition dict_get :: "('k \<times> 'v) list \<Rightarrow> 'k \<Rightarrow> 'v \<Rightarrow> 'v" where
  "dict_get d k dflt = (case map_of d k of None \<Rightarrow> dflt | Some v \<Rightarrow> v)"

text \<open>The loop body \<^verbatim>\<open>count[digit] = count.get(digit, 0) + 1\<close>.\<close>

definition count_digit :: "(char \<times> int) list \<Rightarrow> char \<Rightarrow> (char \<times> int) list" where
  "count_digit d digit = AList.update digit (dict_get d digit 0 + 1) d"

text \<open>\<^verbatim>\<open>count = {}; for digit in s: count[digit] = count.get(digit, 0) + 1\<close>\<close>

definition digit_count :: "string \<Rightarrow> (char \<times> int) list" where
  "digit_count s = foldl count_digit [] s"

text \<open>
  \<^verbatim>\<open>for digit in guess_digit_count: if digit in secret_digit_count:
  correct_digits += min(secret_digit_count[digit], guess_digit_count[digit])\<close>.
  The loop visits the keys of the guess's dictionary in order; the value read back under
  the key is the one stored beside it.
\<close>

definition digit_loop :: "(char \<times> int) list \<Rightarrow> (char \<times> int) list \<Rightarrow> int" where
  "digit_loop secret_digit_count guess_digit_count =
     foldl (\<lambda>acc (digit, m).
              case map_of secret_digit_count digit of
                None \<Rightarrow> acc
              | Some n \<Rightarrow> acc + min n m)
           0 guess_digit_count"

definition calculate_match :: "string \<Rightarrow> string \<Rightarrow> error + MatchResult" where
  "calculate_match secret guess =
     (case position_loop secret guess [0, 1, 2, 3] 0 of
        Inl e \<Rightarrow> Inl e
      | Inr cp \<Rightarrow>
          Inr \<lparr>mr_correct_digits = digit_loop (digit_count secret) (digit_count guess),
               mr_correct_positions = cp\<rparr>)"

text \<open>
  The request schemas \<^verbatim>\<open>LockNumberRequest\<close> and \<^verbatim>\<open>MakeGuessRequest\<close> accept a
  number only when it matches the pattern \<^verbatim>\<open>^\d{4}$\<close>: four decimal digits.
\<close>

definition is_digit :: "char \<Rightarrow> bool" where
  "is_digit c = (c \<in> set ''0123456789'')"

definition four_digits :: "string \<Rightarrow> bool" where
  "four_digits s = (length s = 4 \<and> list_all is_digit s)"

text \<open>
  The scoring rule in the words of the specification: the number of indices below 4 at
  which the two strings agree, and the sum over the ten digit values of the smaller of
  the two occurrence counts.
\<close>

definition spec_correct_positions :: "string \<Rightarrow> string \<Rightarrow> int" where
  "spec_correct_positions secret guess =
     int (length (filter (\<lambda>i. secret ! i = guess ! i) [0..<4]))"

definition spec_correct_digits :: "string \<Rightarrow> string \<Rightarrow> int" where
  "spec_correct_digits secret guess =
     (\<Sum>d\<leftarrow>''0123456789''. int (min (count_list secret d) (count_list guess d)))"


section \<open>The in-memory store: \<^verbatim>\<open>storage/memory_store.py\<close>\<close>

text \<open>
  The three module-level dictionaries. \<open>players_db\<close> is represented by its set of keys:
  its values are the \<^verbatim>\<open>Player\<close> objects that the games hold, and the operations
  modelled here read a player through its game only.
\<close>

record store =
  games_db :: "string \<rightharpoonup> Game"
  players_db :: "string set"
  game_guesses_db :: "string \<rightharpoonup> Guess list"

definition empty_store :: store where
  "empty_store = \<lparr>games_db = Map.empty, players_db = {}, game_guesses_db = Map.empty\<rparr>"

definition create_game :: "Game \<Rightarrow> store \<Rightarrow> store" where
  "create_game game s =
     s\<lparr>games_db := (games_db s)(game_id game \<mapsto> game),
       game_guesses_db := (game_guesses_db s)(game_id game \<mapsto> [])\<rparr>"

definition get_game :: "string \<Rightarrow> store \<Rightarrow> Game option" where
  "get_game gid s = games_db s gid"

definition update_game :: "Game \<Rightarrow> store \<Rightarrow> store" where
  "update_game game s = s\<lparr>games_db := (games_db s)(game_id game \<mapsto> game)\<rparr>"

definition delete_game :: "string \<Rightarrow> store \<Rightarrow> store \<times> bool" where
  "delete_game gid s =
     (if gid \<in> dom (games_db s)
      then (s\<lparr>games_db := (games_db s)(gid := None),
              game_guesses_db := (game_guesses_db s)(gid := None)\<rparr>, True)
      else (s, False))"

definition create_player :: "Player \<Rightarrow> store \<Rightarrow> store" where
  "create_player player s = s\<lparr>players_db := insert (player_id player) (players_db s)\<rparr>"

definition add_guess :: "Guess \<Rightarrow> store \<Rightarrow> store" where
  "add_guess guess s =
     s\<lparr>game_guesses_db := (game_guesses_db s)(guess_game_id guess \<mapsto>
          (case game_guesses_db s (guess_game_id guess) of
             None \<Rightarrow> []
           | Some earlier \<Rightarrow> earlier) @ [guess])\<rparr>"

text \<open>
  \<^verbatim>\<open>get_game\<close> returns the object that the dictionary holds, not a copy. An
  assignment to a field of that object is therefore visible under the key it was fetched
  from at once, before (and whether or not) \<^verbatim>\<open>update_game\<close> is called.
\<close>

definition mutate_game :: "string \<Rightarrow> Game \<Rightarrow> store \<Rightarrow> store" where
  "mutate_game gid game s = s\<lparr>games_db := (games_db s)(gid \<mapsto> game)\<rparr>"

section \<open>Game lifecycle: \<^verbatim>\<open>services/game_service.py\<close>\<close>

text \<open>
  The identifiers that \<^verbatim>\<open>uuid.uuid4\<close> produces and the readings of the clock are
  arguments of the operations. An operation returns the store it leaves behind together
  with its result or the exception it raises.

  The constructor of \<^verbatim>\<open>Player\<close> checks \<^verbatim>\<open>min_length=1, max_length=50\<close> on the
  name; the constructor of \<^verbatim>\<open>Guess\<close> checks \<^verbatim>\<open>ge=0, le=4\<close> on both counts and
  \<^verbatim>\<open>ge=1\<close> on the turn number. A failed check raises \<^verbatim>\<open>ValidationError\<close>.
\<close>

definition player_fields_ok :: "string \<Rightarrow> bool" where
  "player_fields_ok player_name = (1 \<le> length player_name \<and> length player_name \<le> 50)"

definition guess_fields_ok :: "int \<Rightarrow> int \<Rightarrow> int \<Rightarrow> bool" where
  "guess_fields_ok cd cp tn = (0 \<le> cd \<and> cd \<le> 4 \<and> 0 \<le> cp \<and> cp \<le> 4 \<and> 1 \<le> tn)"

definition create_new_game ::
  "string \<Rightarrow> string \<Rightarrow> string \<Rightarrow> nat \<Rightarrow> store \<Rightarrow> store \<times> (error + Game \<times> string)" where
  "create_new_game player_name new_player_id new_game_id now s =
     (if \<not> player_fields_ok player_name then (s, Inl ValidationError)
      else
        let player = \<lparr>player_id = new_player_id, name = player_name,
                      secret_number = None, is_ready = False\<rparr>;
            s1 = create_player player s;
            game = \<lparr>game_id = new_game_id, player_1 = player, player_2 = None,
                    current_turn = None, status = WAITING, winner_id = None,
                    guesses = [], created_at = now, turn_count = 0\<rparr>;
            s2 = create_game game s1
        in (s2, Inr (game, new_player_id)))"

definition join_game ::
  "string \<Rightarrow> string \<Rightarrow> string \<Rightarrow> store \<Rightarrow> store \<times> (error + Game \<times> string)" where
  "join_game gid player_name new_player_id s =
     (case get_game gid s of
        None \<Rightarrow> (s, Inl GameNotFoundError)
      | Some game \<Rightarrow>
          if player_2 game \<noteq> None then (s, Inl GameFullError)
          else if status game = COMPLETED then (s, Inl GameAlreadyCompletedError)
          else if \<not> player_fields_ok player_name then (s, Inl ValidationError)
          else
            let player = \<lparr>player_id = new_player_id, name = player_name,
                          secret_number = None, is_ready = False\<rparr>;
                s1 = create_player player s;
                game' = game\<lparr>player_2 := Some player\<rparr>;
                s2 = update_game game' (mutate_game gid game' s1)
            in (s2, Inr (game', new_player_id)))"

text \<open>
  Lines 93 to 104 of \<^verbatim>\<open>lock_player_number\<close>: find the slot of the player, refuse a
  slot that is ready, store the secret otherwise.
\<close>

definition lock_slot :: "Game \<Rightarrow> string \<Rightarrow> string \<Rightarrow> error + Game" where
  "lock_slot game pid secret =
     (if player_id (player_1 game) = pid then
        (if is_ready (player_1 game) then Inl NumberAlreadyLockedError
         else Inr (game\<lparr>player_1 := (player_1 game)\<lparr>secret_number := Some secret,
                                                     is_ready := True\<rparr>\<rparr>))
      else
        (case player_2 game of
           None \<Rightarrow> Inl PlayerNotInGameError
         | Some p2 \<Rightarrow>
             if player_id p2 = pid then
               (if is_ready p2 then Inl NumberAlreadyLockedError
                else Inr (game\<lparr>player_2 := Some (p2\<lparr>secret_number := Some secret,
                                                      is_ready := True\<rparr>)\<rparr>))
             else Inl PlayerNotInGameError))"

text \<open>Lines 107 to 110: start the game when both players are ready.\<close>

definition both_ready :: "Game \<Rightarrow> bool" where
  "both_ready game =
     (is_ready (player_1 game) \<and>
      (case player_2 game of None \<Rightarrow> False | Some p2 \<Rightarrow> is_ready p2))"

definition start_if_ready :: "Game \<Rightarrow> Game" where
  "start_if_ready game =
     (if both_ready game
      then game\<lparr>status := IN_PROGRESS, current_turn := Some (player_id (player_1 game))\<rparr>
      else game)"

definition lock_player_number ::
  "string \<Rightarrow> string \<Rightarrow> string \<Rightarrow> store \<Rightarrow> store \<times> (error + Game)" where
  "lock_player_number gid pid secret s =
     (case get_game gid s of
        None \<Rightarrow> (s, Inl GameNotFoundError)
      | Some game \<Rightarrow>
          if status game = COMPLETED then (s, Inl GameAlreadyCompletedError)
          else
            (case lock_slot game pid secret of
               Inl e \<Rightarrow> (s, Inl e)
             | Inr game1 \<Rightarrow>
                 let game2 = start_if_ready game1
                 in (update_game game2 (mutate_game gid game2 s), Inr game2)))"

definition get_game_status :: "string \<Rightarrow> store \<Rightarrow> error + Game" where
  "get_game_status gid s =
     (case get_game gid s of None \<Rightarrow> Inl GameNotFoundError | Some game \<Rightarrow> Inr game)"

definition delete_game_by_id :: "string \<Rightarrow> store \<Rightarrow> store \<times> (error + bool)" where
  "delete_game_by_id gid s =
     (case get_game gid s of
        None \<Rightarrow> (s, Inl GameNotFoundError)
      | Some game \<Rightarrow> (fst (delete_game gid s), Inr (snd (delete_game gid s))))"

definition validate_turn :: "Game \<Rightarrow> string \<Rightarrow> bool" where
  "validate_turn game pid = (current_turn game = Some pid)"

text \<open>
  \<^verbatim>\<open>switch_turn\<close> returns the game with the turn switched and the new turn. Reading
  \<^verbatim>\<open>game.player_2.player_id\<close> of a game without a second player raises
  \<^verbatim>\<open>AttributeError\<close>.
\<close>

definition switch_turn :: "Game \<Rightarrow> error + Game \<times> string" where
  "switch_turn game =
     (if current_turn game = Some (player_id (player_1 game)) then
        (case player_2 game of
           None \<Rightarrow> Inl AttributeError
         | Some p2 \<Rightarrow> Inr (game\<lparr>current_turn := Some (player_id p2)\<rparr>, player_id p2))
      else Inr (game\<lparr>current_turn := Some (player_id (player_1 game))\<rparr>,
                player_id (player_1 game)))"

definition get_opponent :: "Game \<Rightarrow> string \<Rightarrow> Player option" where
  "get_opponent game pid =
     (if player_id (player_1 game) = pid then player_2 game else Some (player_1 game))"

definition check_winner :: "int \<Rightarrow> bool" where
  "check_winner cp = (cp = 4)"

definition set_winner :: "Game \<Rightarrow> string \<Rightarrow> store \<Rightarrow> store \<times> Game" where
  "set_winner game winner s =
     (let game' = game\<lparr>winner_id := Some winner, status := COMPLETED\<rparr>
      in (update_game game' s, game'))"

section \<open>Guess processing: \<^verbatim>\<open>services/guess_service.py\<close>\<close>

text \<open>The dictionary returned by \<^verbatim>\<open>process_guess\<close>.\<close>

record GuessResult =
  res_guess_id :: string
  res_guessed_number :: string
  res_correct_digits :: int
  res_correct_positions :: int
  res_is_winner :: bool
  res_next_turn :: "string option"
  res_winner_id :: "string option"
  res_turn_number :: int

definition is_player_1 :: "Game \<Rightarrow> string \<Rightarrow> bool" where
  "is_player_1 game pid = (player_id (player_1 game) = pid)"

definition is_player_2 :: "Game \<Rightarrow> string \<Rightarrow> bool" where
  "is_player_2 game pid =
     (case player_2 game of None \<Rightarrow> False | Some p2 \<Rightarrow> player_id p2 = pid)"

text \<open>
  Lines 113 to 162 of \<^verbatim>\<open>process_guess\<close>, from \<^verbatim>\<open>game.turn_count += 1\<close> on. The
  counter is incremented on the stored object before the \<^verbatim>\<open>Guess\<close> is constructed,
  so a \<^verbatim>\<open>ValidationError\<close> of that constructor leaves the increment behind.
\<close>

definition record_guess ::
  "string \<Rightarrow> string \<Rightarrow> string \<Rightarrow> string \<Rightarrow> nat \<Rightarrow> Game \<Rightarrow> Player \<Rightarrow> MatchResult \<Rightarrow> store
     \<Rightarrow> store \<times> (error + GuessResult)" where
  "record_guess gid pid guessed new_guess_id now game opponent match_result s =
     (let game1 = game\<lparr>turn_count := turn_count game + 1\<rparr>;
          s1 = mutate_game gid game1 s
      in
        if \<not> guess_fields_ok (mr_correct_digits match_result)
               (mr_correct_positions match_result) (turn_count game1)
        then (s1, Inl ValidationError)
        else
          let guess = \<lparr>guess_id = new_guess_id, guess_game_id = gid,
                       guesser_player_id = pid, target_player_id = player_id opponent,
                       guessed_number = guessed,
                       correct_digits = mr_correct_digits match_result,
                       correct_positions = mr_correct_positions match_result,
                       timestamp = now, turn_number = turn_count game1\<rparr>;
              s2 = add_guess guess s1;
              game2 = game1\<lparr>guesses := guesses game1 @ [guess]\<rparr>;
              s3 = mutate_game gid game2 s2
          in
            if check_winner (mr_correct_positions match_result) then
              (let game3 = snd (set_winner game2 pid s3);
                   s4 = mutate_game gid game3 (fst (set_winner game2 pid s3))
               in (s4, Inr \<lparr>res_guess_id = guess_id guess, res_guessed_number = guessed,
                            res_correct_digits = mr_correct_digits match_result,
                            res_correct_positions = mr_correct_positions match_result,
                            res_is_winner = True, res_next_turn = None,
                            res_winner_id = Some pid,
                            res_turn_number = turn_count game3\<rparr>))
            else
              (case switch_turn game2 of
                 Inl e \<Rightarrow> (s3, Inl e)
               | Inr (game3, next_turn) \<Rightarrow>
                   (update_game game3 (mutate_game gid game3 s3),
                    Inr \<lparr>res_guess_id = guess_id guess, res_guessed_number = guessed,
                         res_correct_digits = mr_correct_digits match_result,
                         res_correct_positions = mr_correct_positions match_result,
                         res_is_winner = False, res_next_turn = Some next_turn,
                         res_winner_id = None,
                         res_turn_number = turn_count game3\<rparr>)))"

text \<open>
  Lines 68 to 111: the checks, the opponent, the score. \<^verbatim>\<open>opponent.secret_number\<close>
  of an absent opponent raises \<^verbatim>\<open>AttributeError\<close>; \<^verbatim>\<open>calculate_match\<close> on an
  absent secret raises \<^verbatim>\<open>TypeError\<close> at its first index.
\<close>

definition process_guess ::
  "string \<Rightarrow> string \<Rightarrow> string \<Rightarrow> string \<Rightarrow> nat \<Rightarrow> store \<Rightarrow> store \<times> (error + GuessResult)" where
  "process_guess gid pid guessed new_guess_id now s =
     (case get_game gid s of
        None \<Rightarrow> (s, Inl GameNotFoundError)
      | Some game \<Rightarrow>
          if status game = WAITING then (s, Inl GameNotStartedError)
          else if status game = COMPLETED then (s, Inl GameAlreadyCompletedError)
          else if \<not> is_player_1 game pid \<and> \<not> is_player_2 game pid
            then (s, Inl PlayerNotInGameError)
          else if \<not> validate_turn game pid then (s, Inl NotYourTurnError)
          else
            (case get_opponent game pid of
               None \<Rightarrow> (s, Inl AttributeError)
             | Some opponent \<Rightarrow>
                 (case secret_number opponent of
                    None \<Rightarrow> (s, Inl TypeError)
                  | Some secret \<Rightarrow>
                      (case calculate_match secret guessed of
                         Inl e \<Rightarrow> (s, Inl e)
                       | Inr match_result \<Rightarrow>
                           record_guess gid pid guessed new_guess_id now game opponent
                             match_result s))))"

section \<open>The system as a transition relation\<close>

text \<open>
  One step is one request served by the routers. \<^verbatim>\<open>uuid.uuid4\<close> is taken to return
  an identifier that is not in use: a game identifier outside \<open>games_db\<close>, a player
  identifier outside \<open>players_db\<close>. The routers hand a secret or a guess to the service
  only after the request schema has accepted it.
\<close>

inductive step :: "store \<Rightarrow> store \<Rightarrow> bool" where
  step_create:
    "new_game_id \<notin> dom (games_db s) \<Longrightarrow> new_player_id \<notin> players_db s \<Longrightarrow>
     step s (fst (create_new_game player_name new_player_id new_game_id now s))"
| step_join:
    "new_player_id \<notin> players_db s \<Longrightarrow>
     step s (fst (join_game gid player_name new_player_id s))"
| step_lock:
    "four_digits secret \<Longrightarrow> step s (fst (lock_player_number gid pid secret s))"
| step_guess:
    "four_digits guessed \<Longrightarrow>
     step s (fst (process_guess gid pid guessed new_guess_id now s))"
| step_delete:
    "step s (fst (delete_game_by_id gid s))"

inductive reachable :: "store \<Rightarrow> bool" where
  reachable_init: "reachable empty_store"
| reachable_step: "reachable s \<Longrightarrow> step s s' \<Longrightarrow> reachable s'"

text \<open>The order of the three states.\<close>

fun status_rank :: "GameStatus \<Rightarrow> nat" where
  "status_rank WAITING = 0"
| "status_rank IN_PROGRESS = 1"
| "status_rank COMPLETED = 2"

section \<open>Invariant of the stores that the operations build\<close>

text \<open>
  What holds of a game stored under \<open>gid\<close>, given the player identifiers in use and the
  guesses recorded for \<open>gid\<close> in \<open>game_guesses_db\<close>: the game carries its key, its players
  are known and distinct, a waiting game has no current turn, a started game has two
  ready players, and the turn counter, the turn numbers and the recorded guesses agree
  with the game's own list of guesses.
\<close>

definition game_inv :: "string set \<Rightarrow> Guess list option \<Rightarrow> string \<Rightarrow> Game \<Rightarrow> bool" where
  "game_inv players recorded gid game =
     (game_id game = gid \<and>
      player_id (player_1 game) \<in> players \<and>
      (\<forall>p2. player_2 game = Some p2 \<longrightarrow>
             player_id p2 \<in> players \<and> player_id p2 \<noteq> player_id (player_1 game)) \<and>
      (status game = WAITING \<longrightarrow> current_turn game = None) \<and>
      (status game \<noteq> WAITING \<longrightarrow> both_ready game) \<and>
      turn_count game = int (length (guesses game)) \<and>
      (\<forall>i < length (guesses game). turn_number (guesses game ! i) = int i + 1) \<and>
      recorded = Some (guesses game))"

definition store_inv :: "store \<Rightarrow> bool" where
  "store_inv s =
     (\<forall>gid game. games_db s gid = Some game \<longrightarrow>
        game_inv (players_db s) (game_guesses_db s gid) gid game)"

section \<open>A game played from start to end\<close>

text \<open>
  Alice creates a game, Bob joins, both lock a number, and Alice guesses: wrongly in
  \<open>after_miss\<close>, rightly in \<open>after_win\<close>.
\<close>

definition after_create :: store where
  "after_create = fst (create_new_game ''Alice'' ''player_a'' ''game_1'' 0 empty_store)"

definition after_join :: store where
  "after_join = fst (join_game ''game_1'' ''Bob'' ''player_b'' after_create)"

definition after_lock_1 :: store where
  "after_lock_1 = fst (lock_player_number ''game_1'' ''player_a'' ''1234'' after_join)"

definition after_lock_2 :: store where
  "after_lock_2 = fst (lock_player_number ''game_1'' ''player_b'' ''5678'' after_lock_1)"

definition after_miss :: store where
  "after_miss = fst (process_guess ''game_1'' ''player_a'' ''5670'' ''guess_1'' 2 after_lock_2)"

definition after_win :: store where
  "after_win = fst (process_guess ''game_1'' ''player_a'' ''5678'' ''guess_1'' 2 after_lock_2)"

definition alice :: Player where
  "alice = \<lparr>player_id = ''player_a'', name = ''Alice'', secret_number = None,
            is_ready = False\<rparr>"

definition bob :: Player where
  "bob = \<lparr>player_id = ''player_b'', name = ''Bob'', secret_number = None, is_ready = False\<rparr>"

definition alice_locked :: Player where
  "alice_locked = alice\<lparr>secret_number := Some ''1234'', is_ready := True\<rparr>"

definition bob_locked :: Player where
  "bob_locked = bob\<lparr>secret_number := Some ''5678'', is_ready := True\<rparr>"

definition game_created :: Game where
  "game_created = \<lparr>game_id = ''game_1'', player_1 = alice, player_2 = None,
                    current_turn = None, status = WAITING, winner_id = None,
                    guesses = [], created_at = 0, turn_count = 0\<rparr>"

definition game_started :: Game where
  "game_started = game_created\<lparr>player_1 := alice_locked, player_2 := Some bob_locked,
                    status := IN_PROGRESS, current_turn := Some ''player_a''\<rparr>"

definition winning_guess :: Guess where
  "winning_guess = \<lparr>guess_id = ''guess_1'', guess_game_id = ''game_1'',
                     guesser_player_id = ''player_a'', target_player_id = ''player_b'',
                     guessed_number = ''5678'', correct_digits = 4, correct_positions = 4,
                     timestamp = 2, turn_number = 1\<rparr>"

definition missing_guess :: Guess where
  "missing_guess = winning_guess\<lparr>guessed_number := ''5670'', correct_digits := 3,
                     correct_positions := 3\<rparr>"

definition game_won :: Game where
  "game_won = game_started\<lparr>turn_count := 1, guesses := [winning_guess],
                winner_id := Some ''player_a'', status := COMPLETED\<rparr>"

definition game_missed :: Game where
  "game_missed = game_started\<lparr>turn_count := 1, guesses := [missing_guess],
                   current_turn := Some ''player_b''\<rparr>"

section \<open>Scoring: proofs\<close>

lemma position_loop_total:
  "\<forall>i\<in>set idxs. i < length secret \<and> i < length guess \<Longrightarrow>
   position_loop secret guess idxs acc =
     Inr (acc + int (length (filter (\<lambda>i. secret ! i = guess ! i) idxs)))"
  by (induction idxs arbitrary: acc) auto

lemma range_4: "[0, 1, 2, 3] = [0..<4]"
  by (simp add: upt_rec)

lemma foldl_add: "foldl (\<lambda>acc x. acc + f x) a xs = a + sum_list (map f xs)" for a :: int
  by (induction xs arbitrary: a) simp_all

lemma distinct_foldl_count_digit:
  "distinct (map fst d) \<Longrightarrow> distinct (map fst (foldl count_digit d s))"
  by (induction s arbitrary: d) (simp_all add: count_digit_def distinct_update)

lemma map_of_foldl_count_digit:
  "map_of (foldl count_digit d s) c =
     (if c \<in> set s then Some (dict_get d c 0 + int (count_list s c)) else map_of d c)"
proof (induction s arbitrary: d)
  case Nil
  then show ?case by simp
next
  case (Cons a s)
  show ?case
    by (simp add: Cons.IH) (auto simp: count_digit_def update_conv' dict_get_def)
qed

lemma distinct_digit_count: "distinct (map fst (digit_count s))"
  by (simp add: digit_count_def distinct_foldl_count_digit)

lemma map_of_digit_count:
  "map_of (digit_count s) c = (if c \<in> set s then Some (int (count_list s c)) else None)"
  by (simp add: digit_count_def map_of_foldl_count_digit dict_get_def)

lemma set_digit_count: "set (digit_count s) = (\<lambda>c. (c, int (count_list s c))) ` set s"
proof (rule set_eqI)
  fix p :: "char \<times> int"
  obtain c m where p: "p = (c, m)" by (cases p)
  have "(c, m) \<in> set (digit_count s) \<longleftrightarrow> map_of (digit_count s) c = Some m"
    using distinct_digit_count [of s] by simp
  also have "\<dots> \<longleftrightarrow> c \<in> set s \<and> m = int (count_list s c)"
    by (auto simp: map_of_digit_count)
  finally show "p \<in> set (digit_count s) \<longleftrightarrow> p \<in> (\<lambda>c. (c, int (count_list s c))) ` set s"
    by (auto simp: p)
qed

lemma digit_loop_sum:
  "digit_loop (digit_count secret) (digit_count guess) =
     (\<Sum>c\<in>set guess. int (min (count_list secret c) (count_list guess c)))"
proof -
  let ?h = "\<lambda>p :: char \<times> int. case map_of (digit_count secret) (fst p) of
                None \<Rightarrow> 0 | Some n \<Rightarrow> min n (snd p)"
  have step: "(\<lambda>acc (digit, m). case map_of (digit_count secret) digit of
                  None \<Rightarrow> acc | Some n \<Rightarrow> acc + min n m) = (\<lambda>acc p. acc + ?h p)"
    by (auto simp: fun_eq_iff split: option.splits)
  have "digit_loop (digit_count secret) (digit_count guess) =
          sum_list (map ?h (digit_count guess))"
    unfolding digit_loop_def step by (simp add: foldl_add)
  also have "\<dots> = sum ?h (set (digit_count guess))"
    using distinct_digit_count [of guess]
    by (simp add: sum_list_distinct_conv_sum_set distinct_map)
  also have "\<dots> = (\<Sum>c\<in>set guess. ?h (c, int (count_list guess c)))"
    unfolding set_digit_count by (subst sum.reindex) (auto simp: inj_on_def)
  also have "\<dots> = (\<Sum>c\<in>set guess. int (min (count_list secret c) (count_list guess c)))"
    by (rule sum.cong) (auto simp: map_of_digit_count)
  finally show ?thesis .
qed

lemma digit_loop_bounds:
  "0 \<le> digit_loop (digit_count secret) (digit_count guess) \<and>
   digit_loop (digit_count secret) (digit_count guess) \<le> int (length guess)"
proof -
  have "(\<Sum>c\<in>set guess. int (min (count_list secret c) (count_list guess c)))
          \<le> (\<Sum>c\<in>set guess. int (count_list guess c))"
    by (rule sum_mono) simp
  also have "\<dots> = int (sum (count_list guess) (set guess))"
    by simp
  also have "\<dots> = int (length guess)"
    by (simp add: sum_count_set)
  finally show ?thesis
    by (simp add: digit_loop_sum sum_nonneg)
qed

lemma position_loop_bounds:
  "position_loop secret guess idxs acc = Inr r \<Longrightarrow> acc \<le> r \<and> r \<le> acc + int (length idxs)"
proof (induction idxs arbitrary: acc)
  case Nil
  then show ?case by simp
next
  case (Cons i idxs)
  from Cons.prems have inb: "i < length secret \<and> i < length guess"
    by (auto split: if_splits)
  with Cons.prems have "position_loop secret guess idxs
      (if secret ! i = guess ! i then acc + 1 else acc) = Inr r" by simp
  from Cons.IH [OF this] show ?case by (auto split: if_splits)
qed

lemma calculate_match_fields_ok:
  assumes "calculate_match secret guessed = Inr m" "length guessed = 4" "1 \<le> tn"
  shows "guess_fields_ok (mr_correct_digits m) (mr_correct_positions m) tn"
proof -
  from assms(1) obtain cp where
    cp: "position_loop secret guessed [0, 1, 2, 3] 0 = Inr cp"
    and m: "m = \<lparr>mr_correct_digits = digit_loop (digit_count secret) (digit_count guessed),
                 mr_correct_positions = cp\<rparr>"
    by (auto simp: calculate_match_def split: sum.splits)
  from position_loop_bounds [OF cp] have "0 \<le> cp \<and> cp \<le> 4" by simp
  then show ?thesis
    using digit_loop_bounds [of secret guessed] assms(2,3)
    by (simp add: guess_fields_ok_def m)
qed

lemma sum_digits_spec:
  assumes "set guess \<subseteq> set ''0123456789''"
  shows "(\<Sum>c\<in>set guess. int (min (count_list secret c) (count_list guess c))) =
         spec_correct_digits secret guess"
proof -
  let ?f = "\<lambda>c. int (min (count_list secret c) (count_list guess c))"
  have d: "distinct ''0123456789''" by simp
  have "spec_correct_digits secret guess = sum ?f (set ''0123456789'')"
    unfolding spec_correct_digits_def using d by (rule sum_list_distinct_conv_sum_set)
  also have "\<dots> = sum ?f (set guess)"
    by (rule sum.mono_neutral_right) (use assms in \<open>auto simp: count_list_0_iff\<close>)
  finally show ?thesis by simp
qed

lemma four_digits_set: "four_digits s \<Longrightarrow> set s \<subseteq> set ''0123456789''"
  unfolding four_digits_def is_digit_def list_all_iff by blast

lemma calculate_match_four_digits:
  assumes "four_digits secret" and "four_digits guess"
  shows "calculate_match secret guess =
           Inr \<lparr>mr_correct_digits = spec_correct_digits secret guess,
                mr_correct_positions = spec_correct_positions secret guess\<rparr>"
proof -
  have len: "length secret = 4" "length guess = 4"
    using assms by (simp_all add: four_digits_def)
  have "position_loop secret guess [0..<4] 0 = Inr (spec_correct_positions secret guess)"
    unfolding spec_correct_positions_def
    by (subst position_loop_total) (simp_all add: len)
  then have pos: "position_loop secret guess [0, 1, 2, 3] 0 =
                    Inr (spec_correct_positions secret guess)"
    by (simp only: range_4)
  show ?thesis
    unfolding calculate_match_def pos
    by (simp add: digit_loop_sum sum_digits_spec [OF four_digits_set [OF assms(2)]])
qed

text \<open>
  C3, as amended. For every pair of 4-digit strings, \<open>calculate_match\<close> returns as
  \<open>correct_positions\<close> the number of indices below 4 at which secret and guess agree,
  and as \<open>correct_digits\<close> the sum over the digit values 0 to 9 of the smaller of the
  digit's two occurrence counts. (For the secret 1123 and the guess 1111 that is
  2 correct digits and 2 correct positions, as the witness computes.)
\<close>

theorem calculate_match_counts:
  assumes "four_digits secret" and "four_digits guess"
  shows "calculate_match secret guess =
           Inr \<lparr>mr_correct_digits =
                  (\<Sum>d\<leftarrow>''0123456789''. int (min (count_list secret d) (count_list guess d))),
                mr_correct_positions =
                  int (length (filter (\<lambda>i. secret ! i = guess ! i) [0..<4]))\<rparr>"
  using calculate_match_four_digits [OF assms]
  by (simp only: spec_correct_digits_def spec_correct_positions_def)

theorem calculate_match_counts_witness:
  "four_digits ''1123'' \<and> four_digits ''1111'' \<and>
   calculate_match ''1123'' ''1111'' =
     Inr \<lparr>mr_correct_digits = 2, mr_correct_positions = 2\<rparr>"
proof -
  have a: "four_digits ''1123''" and b: "four_digits ''1111''"
    by (simp_all add: four_digits_def is_digit_def)
  show ?thesis
    using calculate_match_counts [OF a b] a b by (simp add: upt_rec)
qed

text \<open>
  The example that C3 gives does not hold: for the secret 1123 and the guess 1111 the
  strings agree at the indices 0 and 1, so \<open>correct_positions\<close> is 2 and not 1.
\<close>

theorem calculate_match_example_counterexample:
  "calculate_match ''1123'' ''1111'' \<noteq>
     Inr \<lparr>mr_correct_digits = 2, mr_correct_positions = 1\<rparr>"
  by (simp add: calculate_match_def)

text \<open>
  C9. On two strings of exactly four decimal digits \<open>calculate_match\<close> returns a result:
  no index that it reads is out of range (the model answers \<open>IndexError\<close> for such a
  read), and so it raises nothing. Being a function of its two arguments alone, it
  touches no store and gives the same result at every call.
\<close>

theorem calculate_match_total:
  assumes "four_digits secret" and "four_digits guess"
  shows "\<exists>m. calculate_match secret guess = Inr m \<and>
             (\<forall>e. calculate_match secret guess \<noteq> Inl e)"
  using calculate_match_four_digits [OF assms] by simp

theorem calculate_match_total_witness:
  "four_digits ''1234'' \<and> four_digits ''1325'' \<and>
   (\<exists>m. calculate_match ''1234'' ''1325'' = Inr m \<and>
        (\<forall>e. calculate_match ''1234'' ''1325'' \<noteq> Inl e))"
proof -
  have a: "four_digits ''1234''" and b: "four_digits ''1325''"
    by (simp_all add: four_digits_def is_digit_def)
  show ?thesis
    using calculate_match_total [OF a b] a b by simp
qed

section \<open>The invariant holds in every reachable store\<close>

lemma store_inv_empty: "store_inv empty_store"
  by (simp add: store_inv_def empty_store_def)

lemma store_inv_create:
  assumes "store_inv s" "new_game_id \<notin> dom (games_db s)" "new_player_id \<notin> players_db s"
  shows "store_inv (fst (create_new_game player_name new_player_id new_game_id now s))"
  using assms
  by (auto simp: store_inv_def create_new_game_def create_player_def create_game_def
        game_inv_def Let_def)

lemma game_inv_players_mono:
  "game_inv players recorded gid game \<Longrightarrow> players \<subseteq> players' \<Longrightarrow>
   game_inv players' recorded gid game"
  unfolding game_inv_def by blast

lemma join_game_inv:
  assumes "game_inv players recorded gid game" "player_2 game = None"
    and "new_player_id \<notin> players"
  shows "game_inv (insert new_player_id players) recorded gid
           (game\<lparr>player_2 := Some \<lparr>player_id = new_player_id, name = player_name,
                                    secret_number = None, is_ready = False\<rparr>\<rparr>)"
proof -
  have "status game = WAITING"
    using assms(1,2) by (auto simp: game_inv_def both_ready_def)
  then show ?thesis
    using assms by (auto simp: game_inv_def)
qed

lemma store_inv_join:
  assumes "store_inv s" "new_player_id \<notin> players_db s"
  shows "store_inv (fst (join_game gid player_name new_player_id s))"
proof (cases "get_game gid s")
  case None
  then show ?thesis using assms by (simp add: join_game_def)
next
  case (Some game)
  then have gi: "game_inv (players_db s) (game_guesses_db s gid) gid game"
    using assms by (simp add: store_inv_def get_game_def)
  then have id: "game_id game = gid" by (simp add: game_inv_def)
  show ?thesis
  proof (cases "player_2 game = None \<and> status game \<noteq> COMPLETED \<and> player_fields_ok player_name")
    case False
    then show ?thesis using assms Some by (auto simp: join_game_def)
  next
    case True
    note new = join_game_inv [OF gi _ assms(2), of player_name]
    have old: "game_inv (insert new_player_id (players_db s)) (game_guesses_db s k) k g"
      if "games_db s k = Some g" for k g
    proof (rule game_inv_players_mono)
      show "game_inv (players_db s) (game_guesses_db s k) k g"
        using assms(1) that by (simp add: store_inv_def)
    qed blast
    show ?thesis
      using True Some id new old
      by (auto simp: join_game_def store_inv_def update_game_def mutate_game_def
            create_player_def Let_def)
  qed
qed

lemma store_inv_delete:
  assumes "store_inv s"
  shows "store_inv (fst (delete_game_by_id gid s))"
  using assms
  by (auto simp: store_inv_def delete_game_by_id_def delete_game_def get_game_def
        split: option.splits)

lemma lock_slot_inv:
  assumes "lock_slot game pid secret = Inr game1" "game_inv players recorded gid game"
  shows "game_inv players recorded gid (start_if_ready game1)"
  using assms
  by (auto simp: lock_slot_def start_if_ready_def game_inv_def both_ready_def
        split: option.splits if_splits)

lemma store_inv_lock:
  assumes "store_inv s"
  shows "store_inv (fst (lock_player_number gid pid secret s))"
proof (cases "get_game gid s")
  case None
  then show ?thesis using assms by (simp add: lock_player_number_def)
next
  case (Some game)
  then have gi: "game_inv (players_db s) (game_guesses_db s gid) gid game"
    using assms by (simp add: store_inv_def get_game_def)
  show ?thesis
  proof (cases "lock_slot game pid secret")
    case (Inl e)
    then show ?thesis using assms Some by (simp add: lock_player_number_def)
  next
    case (Inr game1)
    have g2: "game_inv (players_db s) (game_guesses_db s gid) gid (start_if_ready game1)"
      by (rule lock_slot_inv [OF Inr gi])
    then have id: "game_id (start_if_ready game1) = gid" by (simp add: game_inv_def)
    show ?thesis
      using assms Some Inr g2 id
      by (auto simp: lock_player_number_def store_inv_def update_game_def mutate_game_def
            Let_def)
  qed
qed


lemma guess_game_inv:
  assumes "game_inv players (Some (guesses game)) gid game" "status game \<noteq> WAITING"
    and "turn_number guess = turn_count game + 1"
    and "guesses game3 = guesses game @ [guess]" "turn_count game3 = turn_count game + 1"
    and "game_id game3 = game_id game" "player_1 game3 = player_1 game"
    and "player_2 game3 = player_2 game" "status game3 \<noteq> WAITING"
  shows "game_inv players (Some (guesses game3)) gid game3"
  using assms by (auto simp: game_inv_def both_ready_def nth_append less_Suc_eq)

lemma store_inv_put:
  assumes "store_inv s" "game_inv (players_db s) (Some recorded) gid game3"
  shows "store_inv (s\<lparr>games_db := (games_db s)(gid \<mapsto> game3),
                      game_guesses_db := (game_guesses_db s)(gid \<mapsto> recorded)\<rparr>)"
  using assms by (auto simp: store_inv_def)

lemma record_guess_inv:
  assumes inv: "store_inv s" and game: "games_db s gid = Some game"
    and started: "status game \<noteq> WAITING"
    and ok: "guess_fields_ok (mr_correct_digits m) (mr_correct_positions m)
               (turn_count game + 1)"
    and turn: "validate_turn game pid"
    and opp: "get_opponent game pid = Some opponent"
  shows "store_inv (fst (record_guess gid pid guessed new_guess_id now game opponent m s))"
proof -
  define guess where "guess =
    \<lparr>guess_id = new_guess_id, guess_game_id = gid, guesser_player_id = pid,
     target_player_id = player_id opponent, guessed_number = guessed,
     correct_digits = mr_correct_digits m, correct_positions = mr_correct_positions m,
     timestamp = now, turn_number = turn_count game + 1\<rparr>"
  define game2 where
    "game2 = game\<lparr>turn_count := turn_count game + 1, guesses := guesses game @ [guess]\<rparr>"
  have gi: "game_inv (players_db s) (game_guesses_db s gid) gid game"
    using inv game by (simp add: store_inv_def)
  then have id: "game_id game = gid" and rec: "game_guesses_db s gid = Some (guesses game)"
    by (simp_all add: game_inv_def)
  have gi': "game_inv (players_db s) (Some (guesses game)) gid game"
    using gi rec by simp
  have ggid: "guess_game_id guess = gid"
    by (simp add: guess_def)
  have put: "store_inv (s\<lparr>games_db := (games_db s)(gid \<mapsto> game3),
                      game_guesses_db := (game_guesses_db s)(gid \<mapsto> guesses game @ [guess])\<rparr>)"
    if "guesses game3 = guesses game @ [guess]" "turn_count game3 = turn_count game + 1"
      "game_id game3 = game_id game" "player_1 game3 = player_1 game"
      "player_2 game3 = player_2 game" "status game3 \<noteq> WAITING" for game3
  proof (rule store_inv_put [OF inv])
    have "game_inv (players_db s) (Some (guesses game3)) gid game3"
      by (rule guess_game_inv [OF gi' started _ that]) (simp add: guess_def)
    then show "game_inv (players_db s) (Some (guesses game @ [guess])) gid game3"
      by (simp add: that(1))
  qed
  show ?thesis
  proof (cases "check_winner (mr_correct_positions m)")
    case True
    have "fst (record_guess gid pid guessed new_guess_id now game opponent m s) =
            s\<lparr>games_db := (games_db s)(gid \<mapsto> game2\<lparr>winner_id := Some pid, status := COMPLETED\<rparr>),
              game_guesses_db := (game_guesses_db s)(gid \<mapsto> guesses game @ [guess])\<rparr>"
      using True ok id rec
      by (simp add: record_guess_def Let_def set_winner_def update_game_def mutate_game_def
            add_guess_def guess_def game2_def)
    then show ?thesis
      using put [of "game2\<lparr>winner_id := Some pid, status := COMPLETED\<rparr>"]
      by (simp add: game2_def)
  next
    case False
    obtain game3 next_turn where sw: "switch_turn game2 = Inr (game3, next_turn)"
      and g3: "game3 = game2\<lparr>current_turn := Some next_turn\<rparr>"
      using turn opp
      by (auto simp: switch_turn_def game2_def validate_turn_def get_opponent_def
            split: option.splits if_splits)
    have "fst (record_guess gid pid guessed new_guess_id now game opponent m s) =
            s\<lparr>games_db := (games_db s)(gid \<mapsto> game3),
              game_guesses_db := (game_guesses_db s)(gid \<mapsto> guesses game @ [guess])\<rparr>"
      using False ok id rec sw ggid
      by (simp add: record_guess_def Let_def update_game_def mutate_game_def
            add_guess_def guess_def [symmetric] game2_def [symmetric])
         (simp add: g3 game2_def)
    then show ?thesis
      using put [of game3] started by (simp add: g3 game2_def)
  qed
qed

lemma store_inv_guess:
  assumes "store_inv s" "four_digits guessed"
  shows "store_inv (fst (process_guess gid pid guessed new_guess_id now s))"
proof (cases "get_game gid s")
  case None
  then show ?thesis using assms by (simp add: process_guess_def)
next
  case (Some game)
  then have game: "games_db s gid = Some game" by (simp add: get_game_def)
  then have gi: "game_inv (players_db s) (game_guesses_db s gid) gid game"
    using assms by (simp add: store_inv_def)
  have len: "length guessed = 4" using assms(2) by (simp add: four_digits_def)
  have tc: "1 \<le> turn_count game + 1" using gi by (simp add: game_inv_def)
  have run: "store_inv (fst (record_guess gid pid guessed new_guess_id now game opponent m s))"
    if "status game \<noteq> WAITING" "validate_turn game pid"
      "get_opponent game pid = Some opponent" "calculate_match secret guessed = Inr m"
    for opponent secret m
    by (rule record_guess_inv [OF assms(1) game that(1)
          calculate_match_fields_ok [OF that(4) len tc] that(2,3)])
  show ?thesis
    using assms(1) Some run
    by (auto simp: process_guess_def split: option.splits sum.splits)
qed

lemma store_inv_step: "step s s' \<Longrightarrow> store_inv s \<Longrightarrow> store_inv s'"
  by (induction rule: step.induct)
     (simp_all add: store_inv_create store_inv_join store_inv_lock store_inv_guess
        store_inv_delete)

lemma reachable_store_inv: "reachable s \<Longrightarrow> store_inv s"
  by (induction rule: reachable.induct) (simp_all add: store_inv_empty store_inv_step)

section \<open>The game played from start to end, evaluated\<close>

lemmas scenario_defs =
  alice_def bob_def alice_locked_def bob_locked_def game_created_def game_started_def
  winning_guess_def missing_guess_def game_won_def game_missed_def

lemmas store_ops =
  create_player_def create_game_def get_game_def update_game_def mutate_game_def
  add_guess_def

lemma after_create_eq:
  "after_create = \<lparr>games_db = [''game_1'' \<mapsto> game_created], players_db = {''player_a''},
                    game_guesses_db = [''game_1'' \<mapsto> []]\<rparr>"
  by (simp add: after_create_def create_new_game_def player_fields_ok_def store_ops
        empty_store_def Let_def scenario_defs)

lemma after_join_eq:
  "after_join = \<lparr>games_db = [''game_1'' \<mapsto> game_created\<lparr>player_2 := Some bob\<rparr>],
                  players_db = {''player_b'', ''player_a''},
                  game_guesses_db = [''game_1'' \<mapsto> []]\<rparr>"
  by (simp add: after_join_def after_create_eq join_game_def player_fields_ok_def store_ops
        Let_def scenario_defs)

lemma after_lock_1_eq:
  "after_lock_1 =
     \<lparr>games_db = [''game_1'' \<mapsto> game_created\<lparr>player_1 := alice_locked, player_2 := Some bob\<rparr>],
      players_db = {''player_b'', ''player_a''},
      game_guesses_db = [''game_1'' \<mapsto> []]\<rparr>"
  by (simp add: after_lock_1_def after_join_eq lock_player_number_def lock_slot_def
        start_if_ready_def both_ready_def store_ops Let_def scenario_defs)

lemma after_lock_2_eq:
  "after_lock_2 = \<lparr>games_db = [''game_1'' \<mapsto> game_started],
                    players_db = {''player_b'', ''player_a''},
                    game_guesses_db = [''game_1'' \<mapsto> []]\<rparr>"
  by (simp add: after_lock_2_def after_lock_1_eq lock_player_number_def lock_slot_def
        start_if_ready_def both_ready_def store_ops Let_def scenario_defs)

lemma lock_1_run:
  "lock_player_number ''game_1'' ''player_a'' ''1234'' after_join =
     (after_lock_1, Inr (game_created\<lparr>player_1 := alice_locked, player_2 := Some bob\<rparr>))"
  by (simp add: after_lock_1_eq)
     (simp add: after_join_eq lock_player_number_def lock_slot_def
        start_if_ready_def both_ready_def store_ops Let_def scenario_defs)

lemma lock_2_run:
  "lock_player_number ''game_1'' ''player_b'' ''5678'' after_lock_1 =
     (after_lock_2, Inr game_started)"
  by (simp add: after_lock_2_eq)
     (simp add: after_lock_1_eq lock_player_number_def lock_slot_def
        start_if_ready_def both_ready_def store_ops Let_def scenario_defs)

lemma match_win: "calculate_match ''5678'' ''5678'' =
    Inr \<lparr>mr_correct_digits = 4, mr_correct_positions = 4\<rparr>"
  by (simp add: calculate_match_def digit_loop_def digit_count_def count_digit_def dict_get_def)

lemma match_miss: "calculate_match ''5678'' ''5670'' =
    Inr \<lparr>mr_correct_digits = 3, mr_correct_positions = 3\<rparr>"
  by (simp add: calculate_match_def digit_loop_def digit_count_def count_digit_def dict_get_def)

lemmas guess_defs =
  process_guess_def record_guess_def is_player_1_def is_player_2_def validate_turn_def
  get_opponent_def guess_fields_ok_def check_winner_def set_winner_def switch_turn_def

lemma win_run:
  "process_guess ''game_1'' ''player_a'' ''5678'' ''guess_1'' 2 after_lock_2 =
     (\<lparr>games_db = [''game_1'' \<mapsto> game_won],
       players_db = {''player_b'', ''player_a''},
       game_guesses_db = [''game_1'' \<mapsto> [winning_guess]]\<rparr>,
      Inr \<lparr>res_guess_id = ''guess_1'', res_guessed_number = ''5678'',
           res_correct_digits = 4, res_correct_positions = 4, res_is_winner = True,
           res_next_turn = None, res_winner_id = Some ''player_a'',
           res_turn_number = 1\<rparr>)"
  by (simp add: after_lock_2_eq guess_defs match_win store_ops Let_def scenario_defs)

lemma miss_run:
  "process_guess ''game_1'' ''player_a'' ''5670'' ''guess_1'' 2 after_lock_2 =
     (\<lparr>games_db = [''game_1'' \<mapsto> game_missed],
       players_db = {''player_b'', ''player_a''},
       game_guesses_db = [''game_1'' \<mapsto> [missing_guess]]\<rparr>,
      Inr \<lparr>res_guess_id = ''guess_1'', res_guessed_number = ''5670'',
           res_correct_digits = 3, res_correct_positions = 3, res_is_winner = False,
           res_next_turn = Some ''player_b'', res_winner_id = None,
           res_turn_number = 1\<rparr>)"
  by (simp add: after_lock_2_eq guess_defs match_miss store_ops Let_def scenario_defs)

lemma after_win_eq:
  "after_win = \<lparr>games_db = [''game_1'' \<mapsto> game_won],
                 players_db = {''player_b'', ''player_a''},
                 game_guesses_db = [''game_1'' \<mapsto> [winning_guess]]\<rparr>"
  by (simp add: after_win_def win_run)

lemma after_miss_eq:
  "after_miss = \<lparr>games_db = [''game_1'' \<mapsto> game_missed],
                  players_db = {''player_b'', ''player_a''},
                  game_guesses_db = [''game_1'' \<mapsto> [missing_guess]]\<rparr>"
  by (simp add: after_miss_def miss_run)

lemma win_run_store: "process_guess ''game_1'' ''player_a'' ''5678'' ''guess_1'' 2 after_lock_2 =
     (after_win,
      Inr \<lparr>res_guess_id = ''guess_1'', res_guessed_number = ''5678'',
           res_correct_digits = 4, res_correct_positions = 4, res_is_winner = True,
           res_next_turn = None, res_winner_id = Some ''player_a'',
           res_turn_number = 1\<rparr>)"
  by (simp only: win_run after_win_eq)

lemma miss_run_store: "process_guess ''game_1'' ''player_a'' ''5670'' ''guess_1'' 2 after_lock_2 =
     (after_miss,
      Inr \<lparr>res_guess_id = ''guess_1'', res_guessed_number = ''5670'',
           res_correct_digits = 3, res_correct_positions = 3, res_is_winner = False,
           res_next_turn = Some ''player_b'', res_winner_id = None,
           res_turn_number = 1\<rparr>)"
  by (simp only: miss_run after_miss_eq)

lemma four_digits_examples:
  "four_digits ''1234''" "four_digits ''5678''" "four_digits ''5670''"
  by (simp_all add: four_digits_def is_digit_def)

lemma reachable_after_create: "reachable after_create"
  unfolding after_create_def
  by (rule reachable_step [OF reachable_init], rule step_create)
     (simp_all add: empty_store_def)

lemma reachable_after_join: "reachable after_join"
  unfolding after_join_def
  by (rule reachable_step [OF reachable_after_create], rule step_join)
     (simp add: after_create_eq)

lemma reachable_after_lock_1: "reachable after_lock_1"
  unfolding after_lock_1_def
  by (rule reachable_step [OF reachable_after_join], rule step_lock)
     (rule four_digits_examples)

lemma reachable_after_lock_2: "reachable after_lock_2"
  unfolding after_lock_2_def
  by (rule reachable_step [OF reachable_after_lock_1], rule step_lock)
     (rule four_digits_examples)

lemma step_win: "step after_lock_2 after_win"
  unfolding after_win_def by (rule step_guess) (rule four_digits_examples)

lemma step_miss: "step after_lock_2 after_miss"
  unfolding after_miss_def by (rule step_guess) (rule four_digits_examples)

lemma reachable_after_win: "reachable after_win"
  by (rule reachable_step [OF reachable_after_lock_2 step_win])

lemma reachable_after_miss: "reachable after_miss"
  by (rule reachable_step [OF reachable_after_lock_2 step_miss])

section \<open>What each operation does to one stored game\<close>

lemma store_inv_key: "store_inv s \<Longrightarrow> games_db s gid = Some game \<Longrightarrow> game_id game = gid"
  by (simp add: store_inv_def game_inv_def)

lemma lock_slot_fields:
  assumes "lock_slot game pid secret = Inr game1"
  shows "game_id game1 = game_id game" "status game1 = status game"
    "current_turn game1 = current_turn game" "\<not> both_ready game"
    "is_ready (player_1 game) \<longrightarrow> player_1 game1 = player_1 game"
    "\<forall>p2. player_2 game = Some p2 \<and> is_ready p2 \<longrightarrow> player_2 game1 = Some p2"
    "player_id (player_1 game1) = player_id (player_1 game)"
    "\<forall>p2. player_2 game1 = Some p2 \<longrightarrow>
        (\<exists>q. player_2 game = Some q \<and> player_id q = player_id p2)"
  using assms
  by (auto simp: lock_slot_def both_ready_def split: if_splits option.splits)

lemma start_if_ready_fields:
  "game_id (start_if_ready game) = game_id game"
  "player_1 (start_if_ready game) = player_1 game"
  "player_2 (start_if_ready game) = player_2 game"
  "both_ready (start_if_ready game) = both_ready game"
  "status (start_if_ready game) = (if both_ready game then IN_PROGRESS else status game)"
  "current_turn (start_if_ready game) =
     (if both_ready game then Some (player_id (player_1 game)) else current_turn game)"
  by (simp_all add: start_if_ready_def both_ready_def)

lemma lock_slot_ready:
  assumes "player_id (player_1 game) = pid \<and> is_ready (player_1 game) \<or>
           player_id (player_1 game) \<noteq> pid \<and>
             (\<exists>p2. player_2 game = Some p2 \<and> player_id p2 = pid \<and> is_ready p2)"
  shows "lock_slot game pid secret = Inl NumberAlreadyLockedError"
  using assms by (auto simp: lock_slot_def)

lemma lock_success:
  assumes "lock_player_number gid pid secret s = (s', Inr game')"
  shows "\<exists>game game1. games_db s gid = Some game \<and> status game \<noteq> COMPLETED \<and>
           lock_slot game pid secret = Inr game1 \<and> game' = start_if_ready game1 \<and>
           games_db s' gid = Some game'"
  using assms
  by (auto simp: lock_player_number_def get_game_def update_game_def mutate_game_def Let_def
        split: option.splits if_splits sum.splits)


lemma process_guess_success:
  assumes "process_guess gid pid guessed new_guess_id now s = (s', Inr r)"
  shows "\<exists>game game' opponent guess.
           games_db s gid = Some game \<and> status game = IN_PROGRESS \<and>
           current_turn game = Some pid \<and> get_opponent game pid = Some opponent \<and>
           games_db s' gid = Some game' \<and>
           guesses game' = guesses game @ [guess] \<and>
           turn_number guess = turn_count game + 1 \<and>
           turn_count game' = turn_count game + 1 \<and>
           res_turn_number r = turn_count game' \<and>
           player_1 game' = player_1 game \<and> player_2 game' = player_2 game \<and>
           (res_is_winner r \<longrightarrow>
              status game' = COMPLETED \<and> winner_id game' = Some pid \<and>
              current_turn game' = current_turn game) \<and>
           (\<not> res_is_winner r \<longrightarrow>
              status game' = IN_PROGRESS \<and>
              current_turn game' =
                Some (if pid = player_id (player_1 game) then player_id opponent
                      else player_id (player_1 game)))"
proof -
  from assms obtain game where game: "games_db s gid = Some game"
    by (auto simp: process_guess_def get_game_def split: option.splits)
  from assms game have st: "status game = IN_PROGRESS"
    by (cases "status game") (auto simp: process_guess_def get_game_def)
  from assms game st have turn: "current_turn game = Some pid"
    by (auto simp: process_guess_def get_game_def validate_turn_def split: if_splits)
  from assms game st turn obtain opponent secret m where
    opp: "get_opponent game pid = Some opponent"
    and rg: "record_guess gid pid guessed new_guess_id now game opponent m s = (s', Inr r)"
    by (auto simp: process_guess_def get_game_def validate_turn_def
          split: if_splits option.splits sum.splits)
  define guess where "guess =
    \<lparr>guess_id = new_guess_id, guess_game_id = gid, guesser_player_id = pid,
     target_player_id = player_id opponent, guessed_number = guessed,
     correct_digits = mr_correct_digits m, correct_positions = mr_correct_positions m,
     timestamp = now, turn_number = turn_count game + 1\<rparr>"
  define game2 where
    "game2 = game\<lparr>turn_count := turn_count game + 1, guesses := guesses game @ [guess]\<rparr>"
  from rg have ok: "guess_fields_ok (mr_correct_digits m) (mr_correct_positions m)
                      (turn_count game + 1)"
    by (auto simp: record_guess_def Let_def split: if_splits)
  show ?thesis
  proof (cases "check_winner (mr_correct_positions m)")
    case True
    with rg ok have "games_db s' gid = Some (game2\<lparr>winner_id := Some pid, status := COMPLETED\<rparr>)"
      and "res_is_winner r" and "res_turn_number r = turn_count game + 1"
      by (auto simp: record_guess_def Let_def set_winner_def update_game_def mutate_game_def
            add_guess_def guess_def game2_def)
    then show ?thesis
      using game st turn opp
      by (intro exI [of _ game] exI [of _ "game2\<lparr>winner_id := Some pid, status := COMPLETED\<rparr>"]
            exI [of _ opponent] exI [of _ guess])
         (simp add: game2_def guess_def)
  next
    case False
    define nxt where "nxt = (if pid = player_id (player_1 game) then player_id opponent
                      else player_id (player_1 game))"
    have sw: "switch_turn game2 = Inr (game2\<lparr>current_turn := Some nxt\<rparr>, nxt)"
      using turn opp
      by (auto simp: switch_turn_def game2_def nxt_def get_opponent_def split: option.splits)
    with rg ok False have "games_db s' gid = Some (game2\<lparr>current_turn := Some nxt\<rparr>)"
      and "\<not> res_is_winner r" and "res_turn_number r = turn_count game + 1"
      by (auto simp: record_guess_def Let_def update_game_def mutate_game_def
            add_guess_def guess_def [symmetric] game2_def [symmetric])
         (simp_all add: game2_def)
    then show ?thesis
      using game st turn opp
      by (intro exI [of _ game] exI [of _ "game2\<lparr>current_turn := Some nxt\<rparr>"]
            exI [of _ opponent] exI [of _ guess])
         (simp add: game2_def guess_def nxt_def)
  qed
qed

lemma create_db:
  assumes "new_game_id \<notin> dom (games_db s)" "games_db s gid = Some game"
  shows "games_db (fst (create_new_game player_name new_player_id new_game_id now s)) gid =
           Some game"
  using assms
  by (auto simp: create_new_game_def create_player_def create_game_def Let_def)

lemma join_db:
  assumes "store_inv s" "games_db s gid = Some game"
    and "games_db (fst (join_game gid0 player_name new_player_id s)) gid = Some game'"
  shows "game' = game \<or>
         (player_2 game = None \<and> status game' = status game \<and>
          player_1 game' = player_1 game)"
proof (cases "games_db s gid0")
  case None
  then show ?thesis using assms by (simp add: join_game_def get_game_def)
next
  case (Some game0)
  have "game_id game0 = gid0" by (rule store_inv_key [OF assms(1) Some])
  then show ?thesis
    using assms(2,3) Some
    by (auto simp: join_game_def get_game_def update_game_def mutate_game_def
          create_player_def Let_def split: if_splits)
qed

lemma lock_db:
  assumes "store_inv s" "games_db s gid = Some game"
    and "games_db (fst (lock_player_number gid0 pid secret s)) gid = Some game'"
  shows "game' = game \<or>
         (status game \<noteq> COMPLETED \<and>
          (\<exists>game1. lock_slot game pid secret = Inr game1 \<and> game' = start_if_ready game1))"
proof (cases "games_db s gid0")
  case None
  then show ?thesis using assms by (simp add: lock_player_number_def get_game_def)
next
  case (Some game0)
  have id: "game_id game0 = gid0" by (rule store_inv_key [OF assms(1) Some])
  show ?thesis
  proof (cases "lock_slot game0 pid secret")
    case (Inl e)
    then show ?thesis
      using assms(2,3) Some
      by (auto simp: lock_player_number_def get_game_def split: if_splits)
  next
    case (Inr game1)
    have "game_id (start_if_ready game1) = gid0"
      using id lock_slot_fields(1) [OF Inr] by (simp add: start_if_ready_fields)
    then show ?thesis
      using assms(2,3) Some Inr
      by (auto simp: lock_player_number_def get_game_def update_game_def mutate_game_def
            Let_def split: if_splits)
  qed
qed

lemma record_guess_db:
  assumes id: "game_id game = gid0" and turn: "validate_turn game pid"
    and opp: "get_opponent game pid = Some opponent"
    and db: "games_db (fst (record_guess gid0 pid guessed new_guess_id now game opponent m s))
               gid = Some game'"
  shows "gid \<noteq> gid0 \<and> games_db s gid = Some game' \<or>
         gid = gid0 \<and> player_1 game' = player_1 game \<and> player_2 game' = player_2 game \<and>
           (status game' = status game \<or> status game' = COMPLETED)"
proof -
  define guess where "guess =
    \<lparr>guess_id = new_guess_id, guess_game_id = gid0, guesser_player_id = pid,
     target_player_id = player_id opponent, guessed_number = guessed,
     correct_digits = mr_correct_digits m, correct_positions = mr_correct_positions m,
     timestamp = now, turn_number = turn_count game + 1\<rparr>"
  define game2 where
    "game2 = game\<lparr>turn_count := turn_count game + 1, guesses := guesses game @ [guess]\<rparr>"
  obtain game3 where
    g3: "games_db (fst (record_guess gid0 pid guessed new_guess_id now game opponent m s)) =
           (games_db s)(gid0 \<mapsto> game3)"
    and same: "player_1 game3 = player_1 game" "player_2 game3 = player_2 game"
      "status game3 = status game \<or> status game3 = COMPLETED"
  proof (cases "guess_fields_ok (mr_correct_digits m) (mr_correct_positions m)
                  (turn_count game + 1)")
    case False
    then have "games_db (fst (record_guess gid0 pid guessed new_guess_id now game opponent m s))
               = (games_db s)(gid0 \<mapsto> game\<lparr>turn_count := turn_count game + 1\<rparr>)"
      by (simp add: record_guess_def Let_def mutate_game_def)
    then show ?thesis by (rule that) simp_all
  next
    case ok: True
    show ?thesis
    proof (cases "check_winner (mr_correct_positions m)")
      case True
      with ok id have
        "games_db (fst (record_guess gid0 pid guessed new_guess_id now game opponent m s))
           = (games_db s)(gid0 \<mapsto> game2\<lparr>winner_id := Some pid, status := COMPLETED\<rparr>)"
        by (simp add: record_guess_def Let_def set_winner_def update_game_def mutate_game_def
              add_guess_def guess_def game2_def)
      then show ?thesis by (rule that) (simp_all add: game2_def)
    next
      case False
      obtain nxt where sw: "switch_turn game2 = Inr (game2\<lparr>current_turn := Some nxt\<rparr>, nxt)"
        using turn opp
        by (auto simp: switch_turn_def game2_def validate_turn_def get_opponent_def
              split: option.splits if_splits)
      with ok id False have
        "games_db (fst (record_guess gid0 pid guessed new_guess_id now game opponent m s))
           = (games_db s)(gid0 \<mapsto> game2\<lparr>current_turn := Some nxt\<rparr>)"
        by (simp add: record_guess_def Let_def update_game_def mutate_game_def
              add_guess_def guess_def [symmetric] game2_def [symmetric])
           (simp add: game2_def)
      then show ?thesis by (rule that) (simp_all add: game2_def)
    qed
  qed
  show ?thesis
    using db same unfolding g3 by (auto split: if_splits)
qed

lemma guess_db:
  assumes "store_inv s" "games_db s gid = Some game"
    and "games_db (fst (process_guess gid0 pid guessed new_guess_id now s)) gid = Some game'"
  shows "game' = game \<or>
         (status game = IN_PROGRESS \<and> player_1 game' = player_1 game \<and>
          player_2 game' = player_2 game \<and>
          (status game' = IN_PROGRESS \<or> status game' = COMPLETED))"
proof (cases "games_db s gid0")
  case None
  then show ?thesis using assms by (simp add: process_guess_def get_game_def)
next
  case (Some game0)
  have id: "game_id game0 = gid0" by (rule store_inv_key [OF assms(1) Some])
  have rg: "game' = game \<or>
         (status game = IN_PROGRESS \<and> player_1 game' = player_1 game \<and>
          player_2 game' = player_2 game \<and>
          (status game' = IN_PROGRESS \<or> status game' = COMPLETED))"
    if "status game0 = IN_PROGRESS" "validate_turn game0 pid"
      "get_opponent game0 pid = Some opponent"
      "games_db (fst (record_guess gid0 pid guessed new_guess_id now game0 opponent m s)) gid
         = Some game'" for opponent m
    using record_guess_db [OF id that(2,3,4)] assms(2) Some that(1) by auto
  have ip: "status game0 = IN_PROGRESS" if "status game0 \<noteq> WAITING" "status game0 \<noteq> COMPLETED"
    using that by (cases "status game0") simp_all
  show ?thesis
    using assms(2,3) Some rg ip
    by (auto simp: process_guess_def get_game_def split: if_splits option.splits sum.splits)
qed

lemma delete_db:
  assumes "games_db s gid = Some game"
    and "games_db (fst (delete_game_by_id gid0 s)) gid = Some game'"
  shows "game' = game"
  using assms
  by (auto simp: delete_game_by_id_def delete_game_def get_game_def
        split: option.splits if_splits)

lemma step_game:
  assumes "step s s'" "store_inv s" "games_db s gid = Some game" "games_db s' gid = Some game'"
  shows "game' = game \<or>
         (player_2 game = None \<and> status game' = status game \<and>
          player_1 game' = player_1 game) \<or>
         (status game \<noteq> COMPLETED \<and>
          (\<exists>pid secret game1. lock_slot game pid secret = Inr game1 \<and>
             game' = start_if_ready game1)) \<or>
         (status game = IN_PROGRESS \<and> player_1 game' = player_1 game \<and>
          player_2 game' = player_2 game \<and>
          (status game' = IN_PROGRESS \<or> status game' = COMPLETED))"
  using assms
proof (induction rule: step.induct)
  case (step_create new_game_id s new_player_id player_name now)
  then show ?case using create_db [of new_game_id s gid game] by simp
next
  case (step_join new_player_id s gid0 player_name)
  then show ?case using join_db [of s gid game gid0] by blast
next
  case (step_lock secret s gid0 pid)
  then show ?case using lock_db [of s gid game gid0 pid secret game'] by blast
next
  case (step_guess guessed s gid0 pid new_guess_id now)
  then show ?case using guess_db [of s gid game gid0] by blast
next
  case (step_delete s gid0)
  then show ?case using delete_db [of s gid game gid0] by blast
qed







text \<open>
  \<open>join_game\<close> on a completed game: which of its two guards answers depends on slot 2
  alone, and in a reachable store slot 2 of a completed game is populated.
\<close>

lemma join_game_on_completed:
  assumes "games_db s gid = Some game" and "status game = COMPLETED"
  shows "join_game gid player_name new_player_id s =
           (s, Inl (if player_2 game \<noteq> None then GameFullError
                    else GameAlreadyCompletedError))"
  using assms by (simp add: join_game_def get_game_def)

lemma completed_game_is_full:
  assumes "reachable s" and "games_db s gid = Some game" and "status game = COMPLETED"
  shows "player_2 game \<noteq> None"
proof -
  have "game_inv (players_db s) (game_guesses_db s gid) gid game"
    using reachable_store_inv [OF assms(1)] assms(2) by (simp add: store_inv_def)
  then have "both_ready game"
    using assms(3) by (simp add: game_inv_def)
  then show ?thesis
    by (auto simp: both_ready_def split: option.splits)
qed

lemma join_guard_unreachable:
  assumes "reachable s"
  shows "snd (join_game gid player_name new_player_id s) \<noteq> Inl GameAlreadyCompletedError"
proof (cases "games_db s gid")
  case None
  then show ?thesis by (simp add: join_game_def get_game_def)
next
  case (Some game)
  show ?thesis
  proof (cases "status game = COMPLETED")
    case True
    then show ?thesis
      using join_game_on_completed [OF Some True, of player_name new_player_id]
        completed_game_is_full [OF assms Some True]
      by simp
  next
    case False
    then show ?thesis
      using Some by (simp add: join_game_def get_game_def Let_def)
  qed
qed

section \<open>The claims about the game lifecycle\<close>

text \<open>
  C1. The claim is that in every reachable state the current turn is absent unless the
  status is \<open>IN_PROGRESS\<close>, and that a winning \<open>process_guess\<close> leaves the persisted game's
  current turn absent. The code does otherwise: \<open>set_winner\<close> sets the winner and the status
  and nothing else. In the game played above, Alice's winning guess is answered with
  \<open>next_turn\<close> absent, while the game stored afterwards is \<open>COMPLETED\<close> and still has Alice's
  identifier as its current turn.
\<close>

theorem win_leaves_current_turn:
  "reachable after_lock_2 \<and>
   games_db after_lock_2 ''game_1'' = Some game_started \<and>
   process_guess ''game_1'' ''player_a'' ''5678'' ''guess_1'' 2 after_lock_2 =
     (after_win,
      Inr \<lparr>res_guess_id = ''guess_1'', res_guessed_number = ''5678'',
           res_correct_digits = 4, res_correct_positions = 4, res_is_winner = True,
           res_next_turn = None, res_winner_id = Some ''player_a'',
           res_turn_number = 1\<rparr>) \<and>
   games_db after_win ''game_1'' = Some game_won \<and>
   status game_won = COMPLETED \<and> winner_id game_won = Some ''player_a'' \<and>
   current_turn game_won = Some ''player_a''"
  using reachable_after_lock_2 win_run_store
  by (simp add: after_win_eq after_lock_2_eq scenario_defs)

text \<open>
  C2. The claim is that \<open>join_game\<close> on an existing game whose status is \<open>COMPLETED\<close> fails
  with \<open>GameAlreadyCompletedError\<close> and with no other error. \<open>join_game\<close> has a guard that
  raises this error, but it stands behind the guard for \<open>GameFullError\<close>, and a completed
  game always has two players (\<open>completed_game_is_full\<close>): in no reachable store does
  \<open>join_game\<close> raise \<open>GameAlreadyCompletedError\<close> (\<open>join_guard_unreachable\<close>). Joining the
  completed game of the play above raises \<open>GameFullError\<close>.
\<close>

theorem join_completed_game_is_refused_as_full:
  "reachable after_win \<and>
   games_db after_win ''game_1'' = Some game_won \<and> status game_won = COMPLETED \<and>
   join_game ''game_1'' ''Carol'' ''player_c'' after_win = (after_win, Inl GameFullError) \<and>
   snd (join_game ''game_1'' ''Carol'' ''player_c'' after_win) \<noteq> Inl GameAlreadyCompletedError"
  using reachable_after_win
  by (simp add: after_win_eq join_game_def get_game_def scenario_defs)

text \<open>
  C4. In a reachable store, a \<open>lock_player_number\<close> call that succeeds was made on a
  \<open>WAITING\<close> game without a current turn. The game it stores and returns is \<open>IN_PROGRESS\<close>
  exactly when slot 1 is ready and slot 2 is populated and ready; its current turn is then
  the identifier of slot 1 and not that of slot 2. Otherwise the game is still \<open>WAITING\<close>
  and still has no current turn.
\<close>

theorem lock_starts_game:
  assumes "reachable s" and "lock_player_number gid pid secret s = (s', Inr game')"
  shows "\<exists>game. games_db s gid = Some game \<and> status game = WAITING \<and>
           current_turn game = None \<and> games_db s' gid = Some game' \<and>
           (status game' = IN_PROGRESS \<longleftrightarrow>
              is_ready (player_1 game') \<and>
              (\<exists>p2. player_2 game' = Some p2 \<and> is_ready p2)) \<and>
           (status game' = IN_PROGRESS \<longrightarrow>
              current_turn game' = Some (player_id (player_1 game')) \<and>
              (\<forall>p2. player_2 game' = Some p2 \<longrightarrow> current_turn game' \<noteq> Some (player_id p2))) \<and>
           (status game' \<noteq> IN_PROGRESS \<longrightarrow>
              status game' = WAITING \<and> current_turn game' = None)"
proof -
  have inv: "store_inv s" by (rule reachable_store_inv [OF assms(1)])
  from lock_success [OF assms(2)] obtain game game1 where
    game: "games_db s gid = Some game" and slot: "lock_slot game pid secret = Inr game1"
    and g': "game' = start_if_ready game1" and db': "games_db s' gid = Some game'"
    by blast
  have gi: "game_inv (players_db s) (game_guesses_db s gid) gid game"
    using inv game by (simp add: store_inv_def)
  note f = lock_slot_fields [OF slot]
  have w: "status game = WAITING" and t: "current_turn game = None"
    using gi f(4) by (auto simp: game_inv_def)
  have ready: "both_ready game1 \<longleftrightarrow>
      is_ready (player_1 game') \<and> (\<exists>p2. player_2 game' = Some p2 \<and> is_ready p2)"
    by (auto simp: g' start_if_ready_fields both_ready_def split: option.splits)
  have distinct: "\<forall>p2. player_2 game1 = Some p2 \<longrightarrow> player_id p2 \<noteq> player_id (player_1 game1)"
    using gi f(7,8) by (fastforce simp: game_inv_def)
  show ?thesis
    using game w t db' ready distinct f(2,3)
    by (auto simp: g' start_if_ready_fields)
qed

theorem lock_starts_game_witness:
  "reachable after_lock_1 \<and>
   lock_player_number ''game_1'' ''player_b'' ''5678'' after_lock_1 =
     (after_lock_2, Inr game_started) \<and>
   status game_started = IN_PROGRESS \<and> current_turn game_started = Some ''player_a'' \<and>
   reachable after_join \<and>
   lock_player_number ''game_1'' ''player_a'' ''1234'' after_join =
     (after_lock_1, Inr (game_created\<lparr>player_1 := alice_locked, player_2 := Some bob\<rparr>)) \<and>
   status (game_created\<lparr>player_1 := alice_locked, player_2 := Some bob\<rparr>) = WAITING \<and>
   current_turn (game_created\<lparr>player_1 := alice_locked, player_2 := Some bob\<rparr>) = None"
proof -
  have r: "is_ready (player_1 game_started) \<and>
           (\<exists>p2. player_2 game_started = Some p2 \<and> is_ready p2)"
    and n: "\<not> is_ready bob"
    by (simp_all add: scenario_defs)
  from lock_starts_game [OF reachable_after_lock_1 lock_2_run] r
  have a: "status game_started = IN_PROGRESS \<and> current_turn game_started = Some ''player_a''"
    by (auto simp: scenario_defs)
  from lock_starts_game [OF reachable_after_join lock_1_run] n
  have b: "status (game_created\<lparr>player_1 := alice_locked, player_2 := Some bob\<rparr>) = WAITING \<and>
     current_turn (game_created\<lparr>player_1 := alice_locked, player_2 := Some bob\<rparr>) = None"
    by auto
  show ?thesis
    using a b reachable_after_lock_1 reachable_after_join lock_1_run lock_2_run by simp
qed

text \<open>
  C5. In a reachable store, a \<open>process_guess\<close> call that succeeds, winning or not, leaves
  the game with its turn counter incremented by exactly 1. If the guess does not win, the
  current turn moves to the other slot: after a guess by slot 1 it is the identifier of
  slot 2, after a guess by slot 2 that of slot 1, and in both cases it differs from the
  current turn before the guess.
\<close>

theorem guess_advances_turn:
  assumes "reachable s"
    and "process_guess gid pid guessed new_guess_id now s = (s', Inr r)"
  shows "\<exists>game game' p2.
           games_db s gid = Some game \<and> games_db s' gid = Some game' \<and>
           player_2 game = Some p2 \<and>
           turn_count game' = turn_count game + 1 \<and>
           (\<not> res_is_winner r \<longrightarrow>
              (pid = player_id (player_1 game) \<longrightarrow>
                 current_turn game' = Some (player_id p2)) \<and>
              (pid = player_id p2 \<longrightarrow>
                 current_turn game' = Some (player_id (player_1 game))) \<and>
              current_turn game' \<noteq> current_turn game)"
proof -
  have inv: "store_inv s" by (rule reachable_store_inv [OF assms(1)])
  from process_guess_success [OF assms(2)] obtain game game' opponent where
    game: "games_db s gid = Some game" and st: "status game = IN_PROGRESS"
    and turn: "current_turn game = Some pid"
    and opp: "get_opponent game pid = Some opponent"
    and db': "games_db s' gid = Some game'"
    and tc: "turn_count game' = turn_count game + 1"
    and nxt: "\<not> res_is_winner r \<longrightarrow>
       current_turn game' = Some (if pid = player_id (player_1 game) then player_id opponent
                      else player_id (player_1 game))"
    by blast
  have gi: "game_inv (players_db s) (game_guesses_db s gid) gid game"
    using inv game by (simp add: store_inv_def)
  then obtain p2 where p2: "player_2 game = Some p2"
    and ne: "player_id p2 \<noteq> player_id (player_1 game)"
    using st by (auto simp: game_inv_def both_ready_def split: option.splits)
  have "pid = player_id (player_1 game) \<longrightarrow> opponent = p2"
    using opp p2 by (auto simp: get_opponent_def)
  then show ?thesis
    using game db' p2 ne tc nxt turn by auto
qed

theorem guess_advances_turn_witness:
  "reachable after_lock_2 \<and>
   process_guess ''game_1'' ''player_a'' ''5670'' ''guess_1'' 2 after_lock_2 =
     (after_miss,
      Inr \<lparr>res_guess_id = ''guess_1'', res_guessed_number = ''5670'',
           res_correct_digits = 3, res_correct_positions = 3, res_is_winner = False,
           res_next_turn = Some ''player_b'', res_winner_id = None,
           res_turn_number = 1\<rparr>) \<and>
   games_db after_lock_2 ''game_1'' = Some game_started \<and>
   games_db after_miss ''game_1'' = Some game_missed \<and>
   player_id (player_1 game_started) = ''player_a'' \<and>
   turn_count game_missed = turn_count game_started + 1 \<and>
   current_turn game_started = Some ''player_a'' \<and>
   current_turn game_missed = Some ''player_b'' \<and>
   games_db after_win ''game_1'' = Some game_won \<and>
   turn_count game_won = turn_count game_started + 1"
proof -
  have g: "games_db after_lock_2 ''game_1'' = Some game_started"
    by (simp add: after_lock_2_eq)
  have g': "games_db after_miss ''game_1'' = Some game_missed"
    by (simp add: after_miss_eq)
  have w: "games_db after_win ''game_1'' = Some game_won"
    by (simp add: after_win_eq)
  from guess_advances_turn [OF reachable_after_lock_2 win_run_store]
  have won: "turn_count game_won = turn_count game_started + 1"
    using g w by auto
  have p: "player_id (player_1 game_started) = ''player_a''"
    "player_2 game_started = Some bob_locked" "player_id bob_locked = ''player_b''"
    "current_turn game_started = Some ''player_a''"
    by (simp_all add: scenario_defs)
  from guess_advances_turn [OF reachable_after_lock_2 miss_run_store]
  have "turn_count game_missed = turn_count game_started + 1 \<and>
        current_turn game_missed = Some ''player_b''"
    using g g' p by auto
  then show ?thesis
    using g g' w won p reachable_after_lock_2 miss_run_store by simp
qed

text \<open>
  C6. For a game in a reachable store: no step of the system moves the status of the game
  backward in the order \<open>WAITING\<close>, \<open>IN_PROGRESS\<close>, \<open>COMPLETED\<close>. When the status is
  \<open>COMPLETED\<close>, every \<open>lock_player_number\<close> and every \<open>process_guess\<close> call on the game fails
  with \<open>GameAlreadyCompletedError\<close> and changes nothing, and after any step the game, if it
  is still stored, is still \<open>COMPLETED\<close>.
\<close>

theorem status_only_moves_forward:
  assumes "reachable s" and "games_db s gid = Some game"
  shows "(step s s' \<and> games_db s' gid = Some game' \<longrightarrow>
            status_rank (status game) \<le> status_rank (status game')) \<and>
         (status game = COMPLETED \<longrightarrow>
            lock_player_number gid pid secret s = (s, Inl GameAlreadyCompletedError) \<and>
            process_guess gid pid guessed new_guess_id now s =
              (s, Inl GameAlreadyCompletedError) \<and>
            (step s s' \<and> games_db s' gid = Some game' \<longrightarrow> status game' = COMPLETED))"
proof -
  have inv: "store_inv s" by (rule reachable_store_inv [OF assms(1)])
  have fwd: "status_rank (status game) \<le> status_rank (status game')"
    if "step s s'" "games_db s' gid = Some game'"
    using step_game [OF that(1) inv assms(2) that(2)]
  proof (elim disjE conjE exE)
    fix pid secret game1
    assume "status game \<noteq> COMPLETED" "lock_slot game pid secret = Inr game1"
      "game' = start_if_ready game1"
    then show ?thesis
      using lock_slot_fields(2) [of game pid secret game1]
      by (cases "status game") (simp_all add: start_if_ready_fields)
  qed auto
  have stay: "status game' = COMPLETED"
    if "status game = COMPLETED" "step s s'" "games_db s' gid = Some game'"
    using fwd [OF that(2,3)] that(1) by (cases "status game'") simp_all
  show ?thesis
    using assms(2) fwd stay
    by (simp add: lock_player_number_def process_guess_def get_game_def)
qed

theorem status_only_moves_forward_witness:
  "reachable after_lock_2 \<and> games_db after_lock_2 ''game_1'' = Some game_started \<and>
   step after_lock_2 after_win \<and> games_db after_win ''game_1'' = Some game_won \<and>
   status_rank (status game_started) \<le> status_rank (status game_won) \<and>
   reachable after_win \<and> status game_won = COMPLETED \<and>
   lock_player_number ''game_1'' ''player_b'' ''0000'' after_win =
     (after_win, Inl GameAlreadyCompletedError) \<and>
   process_guess ''game_1'' ''player_b'' ''1234'' ''guess_2'' 3 after_win =
     (after_win, Inl GameAlreadyCompletedError)"
proof -
  have g: "games_db after_lock_2 ''game_1'' = Some game_started"
    by (simp add: after_lock_2_eq)
  have g': "games_db after_win ''game_1'' = Some game_won"
    by (simp add: after_win_eq)
  have c: "status game_won = COMPLETED"
    by (simp add: scenario_defs)
  from status_only_moves_forward [OF reachable_after_lock_2 g, of after_win game_won]
  have a: "status_rank (status game_started) \<le> status_rank (status game_won)"
    using step_win g' by simp
  from status_only_moves_forward [OF reachable_after_win g', of after_win game_won
      "''player_b''" "''0000''" "''1234''" "''guess_2''" 3]
  have b: "lock_player_number ''game_1'' ''player_b'' ''0000'' after_win =
     (after_win, Inl GameAlreadyCompletedError) \<and>
   process_guess ''game_1'' ''player_b'' ''1234'' ''guess_2'' 3 after_win =
     (after_win, Inl GameAlreadyCompletedError)"
    using c by simp
  show ?thesis
    using a b c g g' reachable_after_lock_2 reachable_after_win step_win by simp
qed

text \<open>
  C7. For every game in a reachable store, the turn counter equals the number of guesses
  in the game's list of guesses, the guess at 1-based place \<open>i\<close> carries turn number \<open>i\<close>,
  and \<open>game_guesses_db\<close> records the same list. A successful \<open>process_guess\<close> appends one
  guess, stamped with the value of the counter just incremented for it.
\<close>

theorem turn_count_matches_guesses:
  assumes "reachable s" and "games_db s gid = Some game"
  shows "turn_count game = int (length (guesses game)) \<and>
         (\<forall>i < length (guesses game). turn_number (guesses game ! i) = int i + 1) \<and>
         game_guesses_db s gid = Some (guesses game) \<and>
         (\<forall>s' r. process_guess gid pid guessed new_guess_id now s = (s', Inr r) \<longrightarrow>
            (\<exists>game' guess. games_db s' gid = Some game' \<and>
               guesses game' = guesses game @ [guess] \<and>
               turn_count game' = turn_count game + 1 \<and>
               turn_number guess = turn_count game' \<and>
               res_turn_number r = turn_number guess))"
proof -
  have "game_inv (players_db s) (game_guesses_db s gid) gid game"
    using reachable_store_inv [OF assms(1)] assms(2) by (simp add: store_inv_def)
  then have "turn_count game = int (length (guesses game))"
    and "\<forall>i < length (guesses game). turn_number (guesses game ! i) = int i + 1"
    and "game_guesses_db s gid = Some (guesses game)"
    by (simp_all add: game_inv_def)
  moreover have "\<exists>game' guess. games_db s' gid = Some game' \<and>
               guesses game' = guesses game @ [guess] \<and>
               turn_count game' = turn_count game + 1 \<and>
               turn_number guess = turn_count game' \<and>
               res_turn_number r = turn_number guess"
    if "process_guess gid pid guessed new_guess_id now s = (s', Inr r)" for s' r
    using process_guess_success [OF that] assms(2) by fastforce
  ultimately show ?thesis by blast
qed

theorem turn_count_matches_guesses_witness:
  "reachable after_miss \<and> games_db after_miss ''game_1'' = Some game_missed \<and>
   guesses game_missed = [missing_guess] \<and>
   turn_count game_missed = 1 \<and> turn_number missing_guess = 1 \<and>
   game_guesses_db after_miss ''game_1'' = Some [missing_guess]"
proof -
  have g: "games_db after_miss ''game_1'' = Some game_missed"
    by (simp add: after_miss_eq)
  have l: "guesses game_missed = [missing_guess]"
    by (simp add: scenario_defs)
  from turn_count_matches_guesses [OF reachable_after_miss g]
  have "turn_count game_missed = 1 \<and> turn_number missing_guess = 1 \<and>
        game_guesses_db after_miss ''game_1'' = Some [missing_guess]"
    by (simp add: l)
  then show ?thesis
    using g l reachable_after_miss by simp
qed

text \<open>
  C8, as amended. A \<open>lock_player_number\<close> call on an existing game that names a slot whose
  readiness flag is already true fails and leaves the store, and with it the slot's secret
  and readiness flag, unchanged: with \<open>NumberAlreadyLockedError\<close> when the game is not
  \<open>COMPLETED\<close>, with \<open>GameAlreadyCompletedError\<close> when it is. Moreover no step of the system
  from a reachable store changes a slot that is ready: its secret stays as it was locked.
\<close>

theorem relock_rejected:
  assumes "games_db s gid = Some game"
  shows "(player_id (player_1 game) = pid \<and> is_ready (player_1 game) \<or>
          player_id (player_1 game) \<noteq> pid \<and>
            (\<exists>p2. player_2 game = Some p2 \<and> player_id p2 = pid \<and> is_ready p2) \<longrightarrow>
          lock_player_number gid pid secret s =
            (s, Inl (if status game = COMPLETED then GameAlreadyCompletedError
                     else NumberAlreadyLockedError))) \<and>
         (reachable s \<and> step s s' \<and> games_db s' gid = Some game' \<longrightarrow>
            (is_ready (player_1 game) \<longrightarrow> player_1 game' = player_1 game) \<and>
            (\<forall>p2. player_2 game = Some p2 \<and> is_ready p2 \<longrightarrow> player_2 game' = Some p2))"
proof (intro conjI impI)
  assume r: "player_id (player_1 game) = pid \<and> is_ready (player_1 game) \<or>
          player_id (player_1 game) \<noteq> pid \<and>
            (\<exists>p2. player_2 game = Some p2 \<and> player_id p2 = pid \<and> is_ready p2)"
  show "lock_player_number gid pid secret s =
            (s, Inl (if status game = COMPLETED then GameAlreadyCompletedError
                     else NumberAlreadyLockedError))"
    using assms lock_slot_ready [OF r]
    by (simp add: lock_player_number_def get_game_def)
next
  assume a: "reachable s \<and> step s s' \<and> games_db s' gid = Some game'"
  then have inv: "store_inv s" by (simp add: reachable_store_inv)
  note cases = step_game [OF _ inv assms, of s' game']
  {
    assume "is_ready (player_1 game)"
    then show "player_1 game' = player_1 game"
      using cases a lock_slot_fields(5) by (auto simp: start_if_ready_fields)
  next
    show "\<forall>p2. player_2 game = Some p2 \<and> is_ready p2 \<longrightarrow> player_2 game' = Some p2"
      using cases a lock_slot_fields(6) by (auto simp: start_if_ready_fields)
  }
qed

theorem relock_rejected_witness:
  "games_db after_lock_2 ''game_1'' = Some game_started \<and>
   player_id (player_1 game_started) = ''player_a'' \<and> is_ready (player_1 game_started) \<and>
   lock_player_number ''game_1'' ''player_a'' ''9999'' after_lock_2 =
     (after_lock_2, Inl NumberAlreadyLockedError) \<and>
   reachable after_lock_2 \<and> step after_lock_2 after_miss \<and>
   games_db after_miss ''game_1'' = Some game_missed \<and>
   player_1 game_missed = player_1 game_started \<and>
   player_2 game_started = Some bob_locked \<and> is_ready bob_locked \<and>
   player_2 game_missed = Some bob_locked"
proof -
  have g: "games_db after_lock_2 ''game_1'' = Some game_started"
    by (simp add: after_lock_2_eq)
  have g': "games_db after_miss ''game_1'' = Some game_missed"
    by (simp add: after_miss_eq)
  have r: "player_id (player_1 game_started) = ''player_a'' \<and> is_ready (player_1 game_started)"
    and b: "player_2 game_started = Some bob_locked \<and> is_ready bob_locked"
    and n: "status game_started \<noteq> COMPLETED"
    by (simp_all add: scenario_defs)
  from relock_rejected [OF g, of "''player_a''" "''9999''" after_miss game_missed]
  show ?thesis
    using g g' r b n reachable_after_lock_2 step_miss by simp
qed

text \<open>
  C8 as stated fails on the completed game of the play above: slot 1 is ready, and
  locking it again raises \<open>GameAlreadyCompletedError\<close>, not \<open>NumberAlreadyLockedError\<close>.
\<close>

theorem relock_completed_counterexample:
  "reachable after_win \<and>
   games_db after_win ''game_1'' = Some game_won \<and>
   player_id (player_1 game_won) = ''player_a'' \<and> is_ready (player_1 game_won) \<and>
   snd (lock_player_number ''game_1'' ''player_a'' ''9999'' after_win) \<noteq>
     Inl NumberAlreadyLockedError"
  using reachable_after_win
  by (simp add: after_win_eq lock_player_number_def get_game_def scenario_defs)



end
